theory Spec2Isabelle
  imports Main "HOL-Library.Sublist"
begin

section \<open>Text as sequences of Unicode code points\<close>

text \<open>
  The generator works on Python \<^verbatim>\<open>str\<close> values, whose elements are Unicode code points
  and whose \<^verbatim>\<open>len\<close> counts code points. A text is therefore a list of code points, each a
  natural number, and the glyphs the source names are written by their code point.
\<close>

type_synonym uchar = nat
type_synonym ustring = "nat list"

text \<open>An ASCII literal of the source, as code points.\<close>

definition ascii :: "string \<Rightarrow> ustring" where
  "ascii s = map of_char s"

abbreviation NL :: uchar where "NL \<equiv> 0x0A"      \<comment> \<open>line feed\<close>
abbreviation SP :: uchar where "SP \<equiv> 0x20"      \<comment> \<open>ASCII space\<close>
abbreviation IDSP :: uchar where "IDSP \<equiv> 0x3000" \<comment> \<open>ideographic (full-width) space\<close>
abbreviation DI :: uchar where "DI \<equiv> 0x7B2C"     \<comment> \<open>the glyph opening a chapter number\<close>
abbreviation HUI :: uchar where "HUI \<equiv> 0x56DE"   \<comment> \<open>the glyph closing a chapter number\<close>
abbreviation YI :: uchar where "YI \<equiv> 0x4E00"     \<comment> \<open>the numeral one\<close>
abbreviation ER :: uchar where "ER \<equiv> 0x4E8C"     \<comment> \<open>the numeral two\<close>
abbreviation LB :: uchar where "LB \<equiv> 0x3010"     \<comment> \<open>left black lenticular bracket\<close>
abbreviation RB :: uchar where "RB \<equiv> 0x3011"     \<comment> \<open>right black lenticular bracket\<close>
abbreviation FWCOLON :: uchar where "FWCOLON \<equiv> 0xFF1A" \<comment> \<open>full-width colon\<close>

text \<open>
  Whitespace as Python sees it: \<^verbatim>\<open>str.strip()\<close> and the pattern class \<^verbatim>\<open>\s\<close> of a
  \<^verbatim>\<open>str\<close> pattern both use the interpreter's table of whitespace code points.
\<close>

definition is_space :: "uchar \<Rightarrow> bool" where
  "is_space c \<longleftrightarrow>
     (0x09 \<le> c \<and> c \<le> 0x0D) \<or> (0x1C \<le> c \<and> c \<le> 0x20) \<or> c = 0x85 \<or> c = 0xA0 \<or>
     c = 0x1680 \<or> (0x2000 \<le> c \<and> c \<le> 0x200A) \<or> c = 0x2028 \<or> c = 0x2029 \<or>
     c = 0x202F \<or> c = 0x205F \<or> c = 0x3000"

text \<open>
  The class \<^verbatim>\<open>\d\<close> of a \<^verbatim>\<open>str\<close> pattern: the decimal digits of every script (general
  category Nd, Unicode 14). Each entry is the zero of a run of ten digits.
\<close>

definition decimal_zeros :: "uchar list" where
  "decimal_zeros =
    [0x30, 0x660, 0x6F0, 0x7C0, 0x966, 0x9E6, 0xA66, 0xAE6, 0xB66, 0xBE6, 0xC66, 0xCE6,
     0xD66, 0xDE6, 0xE50, 0xED0, 0xF20, 0x1040, 0x1090, 0x17E0, 0x1810, 0x1946, 0x19D0,
     0x1A80, 0x1A90, 0x1B50, 0x1BB0, 0x1C40, 0x1C50, 0xA620, 0xA8D0, 0xA900, 0xA9D0,
     0xA9F0, 0xAA50, 0xABF0, 0xFF10, 0x104A0, 0x10D30, 0x11066, 0x110F0, 0x11136,
     0x111D0, 0x112F0, 0x11450, 0x114D0, 0x11650, 0x116C0, 0x11730, 0x118E0, 0x11950,
     0x11C50, 0x11D50, 0x11DA0, 0x16A60, 0x16AC0, 0x16B50, 0x1D7CE, 0x1D7D8, 0x1D7E2,
     0x1D7EC, 0x1D7F6, 0x1E140, 0x1E2F0, 0x1E950, 0x1FBF0]"

definition is_digit :: "uchar \<Rightarrow> bool" where
  "is_digit c = list_ex (\<lambda>z. z \<le> c \<and> c < z + 10) decimal_zeros"

text \<open>The class \<^verbatim>\<open>[...]\<close> of the eleven numeral ideographs, one to ten and hundred.\<close>

definition numerals :: "uchar list" where
  "numerals = [0x4E00, 0x4E8C, 0x4E09, 0x56DB, 0x4E94, 0x516D, 0x4E03, 0x516B, 0x4E5D,
               0x5341, 0x767E]"

definition is_numeral :: "uchar \<Rightarrow> bool" where
  "is_numeral c = (c \<in> set numerals)"


section \<open>The string operations the generator calls\<close>

text \<open>\<^verbatim>\<open>s.strip()\<close>: whitespace removed at both ends.\<close>

definition lstrip :: "ustring \<Rightarrow> ustring" where
  "lstrip s = dropWhile is_space s"

definition rstrip :: "ustring \<Rightarrow> ustring" where
  "rstrip s = rev (dropWhile is_space (rev s))"

definition strip :: "ustring \<Rightarrow> ustring" where
  "strip s = lstrip (rstrip s)"

text \<open>\<^verbatim>\<open>s.split(c)\<close> for a separator of one character: never an empty list.\<close>

fun split_on :: "'a \<Rightarrow> 'a list \<Rightarrow> 'a list list" where
  "split_on c [] = [[]]"
| "split_on c (x # xs) =
     (if x = c then [] # split_on c xs
      else (case split_on c xs of [] \<Rightarrow> [[x]] | l # ls \<Rightarrow> (x # l) # ls))"

text \<open>\<^verbatim>\<open>sep.join(parts)\<close>.\<close>

fun join :: "'a list \<Rightarrow> 'a list list \<Rightarrow> 'a list" where
  "join sep [] = []"
| "join sep [p] = p"
| "join sep (p # q # ps) = p @ sep @ join sep (q # ps)"

text \<open>\<^verbatim>\<open>s.replace(c, r)\<close> for a pattern \<open>c\<close> of one character.\<close>

definition replace_char :: "'a \<Rightarrow> 'a list \<Rightarrow> 'a list \<Rightarrow> 'a list" where
  "replace_char c r s = concat (map (\<lambda>x. if x = c then r else [x]) s)"

text \<open>\<^verbatim>\<open>s.find(pat)\<close>: the least offset at which \<open>pat\<close> occurs, \<open>None\<close> for Python's -1.\<close>

fun find_sub :: "'a list \<Rightarrow> 'a list \<Rightarrow> nat option" where
  "find_sub pat [] = (if pat = [] then Some 0 else None)"
| "find_sub pat (c # cs) =
     (if prefix pat (c # cs) then Some 0 else map_option Suc (find_sub pat cs))"

text \<open>\<^verbatim>\<open>s.startswith(p)\<close> and \<^verbatim>\<open>s.endswith(p)\<close>.\<close>

definition startswith :: "'a list \<Rightarrow> 'a list \<Rightarrow> bool" where
  "startswith s p = prefix p s"

definition endswith :: "'a list \<Rightarrow> 'a list \<Rightarrow> bool" where
  "endswith s p = suffix p s"

text \<open>\<^verbatim>\<open>str(n)\<close> for a non-negative integer.\<close>

fun str_nat :: "nat \<Rightarrow> ustring" where
  "str_nat n = (if n < 10 then [0x30 + n] else str_nat (n div 10) @ [0x30 + n mod 10])"

declare str_nat.simps [simp del]


section \<open>Pattern matching\<close>

text \<open>
  Each regular expression of the source is a matcher on the text that remains at the
  position tried. The pieces of the patterns never compete for a character (a numeral is
  neither whitespace nor the closing glyph, the character after a greedy run of
  whitespace is not whitespace), so the first path the backtracking engine tries is the
  only one that can succeed and the matchers need no backtracking.
\<close>

definition skip_ws :: "ustring \<Rightarrow> ustring" where   \<comment> \<open>\<^verbatim>\<open>\s*\<close>, greedy\<close>
  "skip_ws s = dropWhile is_space s"

fun expect :: "uchar \<Rightarrow> ustring \<Rightarrow> ustring option" where   \<comment> \<open>one literal character\<close>
  "expect c [] = None"
| "expect c (x # xs) = (if x = c then Some xs else None)"

text \<open>
  \<^verbatim>\<open>DI \s* YI \s* HUI\<close>, the body of the fallback pattern
  \<^verbatim>\<open>(^|\n)DI\s*YI\s*HUI\<close>: does it match at the head of \<open>s\<close>?
\<close>

definition match_first_chapter :: "ustring \<Rightarrow> bool" where
  "match_first_chapter s =
     (case expect DI s of None \<Rightarrow> False
      | Some s1 \<Rightarrow> (case expect YI (skip_ws s1) of None \<Rightarrow> False
         | Some s2 \<Rightarrow> (case expect HUI (skip_ws s2) of None \<Rightarrow> False | Some s3 \<Rightarrow> True)))"

text \<open>
  The fallback pattern tried at offset \<open>i\<close>, where \<open>s\<close> is the text from \<open>i\<close> on. Without
  the multi-line flag \<^verbatim>\<open>^\<close> holds at offset 0 only; the other branch consumes a line feed.
\<close>

definition first_chapter_here :: "nat \<Rightarrow> ustring \<Rightarrow> bool" where
  "first_chapter_here i s =
     ((i = 0 \<and> match_first_chapter s) \<or>
      (case s of [] \<Rightarrow> False | c # r \<Rightarrow> c = NL \<and> match_first_chapter r))"

text \<open>\<^verbatim>\<open>re.search\<close> with the fallback pattern: the start of the leftmost match.\<close>

fun search_first_chapter :: "nat \<Rightarrow> ustring \<Rightarrow> nat option" where
  "search_first_chapter i [] = (if first_chapter_here i [] then Some i else None)"
| "search_first_chapter i (c # r) =
     (if first_chapter_here i (c # r) then Some i else search_first_chapter (Suc i) r)"

text \<open>
  \<^verbatim>\<open>(DI \s* [numerals]+ \s* HUI)\<close> at the head of \<open>s\<close>: the text of the group and the
  text that follows it.
\<close>

definition match_numeral_token :: "ustring \<Rightarrow> (ustring \<times> ustring) option" where
  "match_numeral_token s =
     (case expect DI s of None \<Rightarrow> None
      | Some s1 \<Rightarrow>
          (let s2 = skip_ws s1; s3 = dropWhile is_numeral s2 in
           if takeWhile is_numeral s2 = [] then None
           else (case expect HUI (skip_ws s3) of None \<Rightarrow> None
                 | Some s4 \<Rightarrow> Some (take (length s - length s4) s, s4))))"

text \<open>
  \<^verbatim>\<open>(DI\s*[numerals]+\s*HUI\s+.*?)(\n|$)\<close> at the head of \<open>s\<close>: the number of characters
  the two groups consume. After the greedy whitespace the lazy \<^verbatim>\<open>.*?\<close> grows over the
  characters that are no line feed until a line feed, which is consumed, or the end of the
  text.
\<close>

definition header_core :: "ustring \<Rightarrow> nat option" where
  "header_core s =
     (case match_numeral_token s of None \<Rightarrow> None
      | Some (tok, r) \<Rightarrow>
          (let r1 = skip_ws r in
           if r1 = r then None
           else (let r2 = dropWhile (\<lambda>c. c \<noteq> NL) r1;
                     r3 = (case r2 of [] \<Rightarrow> [] | c # r' \<Rightarrow> r')
                 in Some (length s - length r3))))"

text \<open>
  The chapter-header pattern \<^verbatim>\<open>(^|\n)(...)(\n|$)\<close> tried at offset \<open>i\<close>: the length of
  the match.
\<close>

definition header_here :: "nat \<Rightarrow> ustring \<Rightarrow> nat option" where
  "header_here i s =
     (case (if i = 0 then header_core s else None) of
        Some n \<Rightarrow> Some n
      | None \<Rightarrow> (case s of [] \<Rightarrow> None
                 | c # r \<Rightarrow> if c = NL then map_option Suc (header_core r) else None))"

lemma expect_Some: "expect c s = Some r \<longleftrightarrow> s = c # r"
  by (cases s) auto

lemma length_skip_ws: "length (skip_ws s) \<le> length s"
  by (simp add: skip_ws_def length_dropWhile_le)

lemma match_numeral_token_length:
  assumes "match_numeral_token s = Some (tok, r)"
  shows "length r < length s"
proof -
  from assms obtain s1 where s1: "s = DI # s1"
    and r: "skip_ws (dropWhile is_numeral (skip_ws s1)) = HUI # r"
    by (auto simp: match_numeral_token_def Let_def expect_Some
             split: option.splits if_splits)
  have "length (HUI # r) \<le> length (dropWhile is_numeral (skip_ws s1))"
    unfolding r [symmetric] by (rule length_skip_ws)
  also have "\<dots> \<le> length (skip_ws s1)" by (rule length_dropWhile_le)
  also have "\<dots> \<le> length s1" by (rule length_skip_ws)
  finally show ?thesis using s1 by simp
qed

lemma header_core_bounds: "header_core s = Some n \<Longrightarrow> 0 < n \<and> n \<le> length s"
proof -
  assume h: "header_core s = Some n"
  then obtain tok r where m: "match_numeral_token s = Some (tok, r)"
    by (auto simp: header_core_def split: option.splits)
  define r2 where "r2 = dropWhile (\<lambda>c. c \<noteq> NL) (skip_ws r)"
  define r3 where "r3 = (case r2 of [] \<Rightarrow> [] | c # r' \<Rightarrow> r')"
  have "length r2 \<le> length r"
    unfolding r2_def skip_ws_def
    by (meson le_trans length_dropWhile_le)
  moreover have "length r3 \<le> length r2"
    by (cases r2) (simp_all add: r3_def)
  moreover have "length r < length s"
    using m by (rule match_numeral_token_length)
  moreover have "n = length s - length r3"
    using h m by (auto simp: header_core_def Let_def r2_def r3_def split: if_splits)
  ultimately show ?thesis by simp
qed

lemma header_here_bounds: "header_here i s = Some n \<Longrightarrow> 0 < n \<and> n \<le> length s"
  by (cases s)
     (auto simp: header_here_def split: option.splits if_splits dest: header_core_bounds)

text \<open>
  \<^verbatim>\<open>pattern.finditer(text)\<close> with the chapter-header pattern: the start of every match, left
  to right, the search resuming where the previous match ended. \<open>i\<close> is the offset of the
  remaining text \<open>s\<close> in the whole text.
\<close>

function finditer_headers :: "nat \<Rightarrow> ustring \<Rightarrow> nat list" where
  "finditer_headers i s =
     (case header_here i s of
        Some n \<Rightarrow> i # finditer_headers (i + n) (drop n s)
      | None \<Rightarrow> (case s of [] \<Rightarrow> [] | c # r \<Rightarrow> finditer_headers (Suc i) r))"
  by pat_completeness auto
termination
  by (relation "measure (\<lambda>(i, s). length s)") (auto dest: header_here_bounds)

declare finditer_headers.simps [simp del]


section \<open>Splitting the file into listing and body\<close>

text \<open>The messages the parser prints.\<close>

datatype diag =
    FullTxtNotFound          \<comment> \<open>\<^verbatim>\<open>Error: full.txt not found.\<close>\<close>
  | MarkerNotFound           \<comment> \<open>\<^verbatim>\<open>Warning: ... marker not found. Trying to split by first chapter.\<close>\<close>
  | CouldNotSplit            \<comment> \<open>\<^verbatim>\<open>Error: Could not split TOC and Body.\<close>\<close>
  | NoChapterHeaders         \<comment> \<open>\<^verbatim>\<open>Warning: No chapter headers found in body.\<close>\<close>

definition split_marker :: ustring where
  "split_marker = [0x6249, 0x9875, 0x9898, 0x8BD7, 0xFF1A]"

text \<open>
  The first step of \<^verbatim>\<open>parse_full_text\<close>: the messages printed and, unless the parser gives
  up, the listing text and the body text.
\<close>

definition split_toc_body :: "ustring \<Rightarrow> diag list \<times> (ustring \<times> ustring) option" where
  "split_toc_body content =
     (case find_sub split_marker content of
        Some i \<Rightarrow>
          ([], Some (take i content, split_marker @ drop (i + length split_marker) content))
      | None \<Rightarrow>
          (case search_first_chapter 0 content of
             Some k \<Rightarrow> ([MarkerNotFound], Some (take k content, drop k content))
           | None \<Rightarrow> ([MarkerNotFound, CouldNotSplit], None)))"


section \<open>The listing\<close>

record toc_entry =
  te_id :: ustring
  te_num_str :: ustring
  te_title :: ustring
  te_filename :: ustring

text \<open>
  \<^verbatim>\<open>$\<close> without the multi-line flag: the end of the text, or the place before a line feed
  that ends the text.
\<close>

definition at_end :: "ustring \<Rightarrow> bool" where
  "at_end s = (s = [] \<or> s = [NL])"

text \<open>
  The tail \<^verbatim>\<open>\s*(\d+)?$\<close> of the listing pattern. A digit is no whitespace and no line
  feed, so only the greedy path can reach the end.
\<close>

definition toc_tail :: "ustring \<Rightarrow> bool" where
  "toc_tail t = at_end (dropWhile is_digit (dropWhile is_space t))"

text \<open>
  The lazy group \<^verbatim>\<open>(.*?)\<close> before that tail: the shortest run of characters other than
  the line feed after which the tail matches.
\<close>

fun lazy_title :: "ustring \<Rightarrow> ustring option" where
  "lazy_title [] = (if toc_tail [] then Some [] else None)"
| "lazy_title (c # cs) =
     (if toc_tail (c # cs) then Some []
      else if c = NL then None
      else map_option ((#) c) (lazy_title cs))"

text \<open>
  \<^verbatim>\<open>toc_pattern.match(line)\<close>: groups 1 and 2 of
  \<^verbatim>\<open>(DI\s*[numerals]+\s*HUI)\s+(.*?)\s*(\d+)?$\<close>.
\<close>

definition toc_match :: "ustring \<Rightarrow> (ustring \<times> ustring) option" where
  "toc_match line =
     (case match_numeral_token line of None \<Rightarrow> None
      | Some (tok, r) \<Rightarrow>
          (let r1 = skip_ws r in
           if r1 = r then None
           else (case lazy_title r1 of None \<Rightarrow> None | Some t \<Rightarrow> Some (tok, t))))"

text \<open>The loop over the lines of the listing; \<open>chapters\<close> is the list built so far.\<close>

fun parse_toc_lines :: "toc_entry list \<Rightarrow> ustring list \<Rightarrow> toc_entry list" where
  "parse_toc_lines chapters [] = chapters"
| "parse_toc_lines chapters (l # ls) =
     (let line = strip l in
      if line = [] then parse_toc_lines chapters ls
      else (case toc_match line of
              None \<Rightarrow> parse_toc_lines chapters ls
            | Some (g1, g2) \<Rightarrow>
                parse_toc_lines
                  (chapters @
                   [\<lparr> te_id = ascii ''chap'' @ str_nat (length chapters + 1),
                      te_num_str = replace_char SP [] g1,
                      te_title = strip g2,
                      te_filename = ascii ''chapter'' @ str_nat (length chapters + 1)
                                    @ ascii ''.html'' \<rparr>])
                  ls))"

definition parse_toc :: "ustring \<Rightarrow> toc_entry list" where
  "parse_toc toc_text = parse_toc_lines [] (split_on NL toc_text)"


section \<open>The body: front matter and chapters\<close>

text \<open>
  An element of \<^verbatim>\<open>parsed_body\<close>: a dictionary whose \<^verbatim>\<open>type\<close> is \<^verbatim>\<open>intro\<close> or
  \<^verbatim>\<open>chapter\<close>, with the keys of each.
\<close>

datatype item =
    Intro (item_title: ustring) (item_content: ustring) (item_filename: ustring)
  | Chapter (item_num_str: ustring) (item_title: ustring) (item_content: ustring)
      (item_original_header: ustring)

definition intro_title :: ustring where "intro_title = [0x6249, 0x9875]"
definition full_title :: ustring where "full_title = [0x5168, 0x6587]"

text \<open>
  \<^verbatim>\<open>re.match\<close> of \<^verbatim>\<open>(DI\s*[numerals]+\s*HUI)\s+(.*)\<close> on the header line, and what the
  source makes of it: the number with its ASCII spaces deleted and the stripped title, or
  the first four characters and the whole line when the line does not match.
\<close>

definition parse_header :: "ustring \<Rightarrow> ustring \<times> ustring" where
  "parse_header header =
     (case match_numeral_token header of
        None \<Rightarrow> (take 4 header, header)
      | Some (g1, r) \<Rightarrow>
          (let r1 = skip_ws r in
           if r1 = r then (take 4 header, header)
           else (replace_char SP [] g1, strip (takeWhile (\<lambda>c. c \<noteq> NL) r1))))"

text \<open>The chapter cut from \<^verbatim>\<open>body_text[start:end]\<close>.\<close>

definition make_chapter :: "ustring \<Rightarrow> nat \<Rightarrow> nat \<Rightarrow> item" where
  "make_chapter body_text start end =
     (let full_chunk = strip (take (end - start) (drop start body_text));
          lines = split_on NL full_chunk;
          header = strip (hd lines);
          content = strip (join [NL] (tl lines));
          (num_str, title) = parse_header header
      in Chapter num_str title content header)"

text \<open>
  The loop over the matches: a chapter runs to the start of the next match, the last one
  to the end of the body.
\<close>

fun chapters_from :: "ustring \<Rightarrow> nat list \<Rightarrow> item list" where
  "chapters_from body_text [] = []"
| "chapters_from body_text [start] = [make_chapter body_text start (length body_text)]"
| "chapters_from body_text (start # next # ms) =
     make_chapter body_text start next # chapters_from body_text (next # ms)"

definition parse_body :: "ustring \<Rightarrow> diag list \<times> item list" where
  "parse_body body_text =
     (let matches = finditer_headers 0 body_text in
      if matches = [] then
        ([NoChapterHeaders], [Intro full_title body_text (ascii ''full.html'')])
      else
        (let intro_text = strip (take (hd matches) body_text) in
         ([], (if intro_text = [] then []
               else [Intro intro_title intro_text (ascii ''intro.html'')])
              @ chapters_from body_text matches)))"

text \<open>
  \<^verbatim>\<open>parse_full_text\<close>, given the text of the file if the file exists: the messages printed,
  the listing and \<^verbatim>\<open>parsed_body\<close>.
\<close>

definition parse_full_text :: "ustring option \<Rightarrow> diag list \<times> toc_entry list \<times> item list" where
  "parse_full_text file =
     (case file of
        None \<Rightarrow> ([FullTxtNotFound], [], [])
      | Some content \<Rightarrow>
          (case split_toc_body content of
             (d, None) \<Rightarrow> (d, [], [])
           | (d, Some (toc_text, body_text)) \<Rightarrow>
               (d @ fst (parse_body body_text), parse_toc toc_text,
                snd (parse_body body_text))))"


section \<open>Lines of a chapter\<close>

text \<open>The three replacements that escape HTML, in the order of the source.\<close>

definition escape_html :: "ustring \<Rightarrow> ustring" where
  "escape_html text =
     replace_char 0x3E (ascii ''&gt;'')
       (replace_char 0x3C (ascii ''&lt;'')
         (replace_char 0x26 (ascii ''&amp;'') text))"

text \<open>
  The lazy \<^verbatim>\<open>.*?\<close> followed by the closing bracket, tried after an opening bracket: the
  characters up to the nearest closing bracket and the text after it, unless a line feed
  or the end of the text comes first.
\<close>

fun find_close :: "ustring \<Rightarrow> (ustring \<times> ustring) option" where
  "find_close [] = None"
| "find_close (c # cs) =
     (if c = RB then Some ([], cs)
      else if c = NL then None
      else map_option (\<lambda>(inner, rest). (c # inner, rest)) (find_close cs))"

lemma find_close_length: "find_close s = Some (inner, rest) \<Longrightarrow> length rest < length s"
  by (induction s arbitrary: inner) (auto split: if_splits)

definition span_open :: ustring where
  \<open>span_open = ascii ''<span class="comment">''\<close>

definition span_close :: ustring where
  "span_close = ascii ''</span>''"

text \<open>
  \<^verbatim>\<open>re.sub\<close> of the bracket pattern: every match, found left to right, is put between
  the two tags; a character at which the pattern does not match is copied.
\<close>

function wrap_comments :: "ustring \<Rightarrow> ustring" where
  "wrap_comments [] = []"
| "wrap_comments (c # cs) =
     (if c = LB then
        (case find_close cs of
           Some (inner, rest) \<Rightarrow>
             span_open @ LB # inner @ RB # span_close @ wrap_comments rest
         | None \<Rightarrow> c # wrap_comments cs)
      else c # wrap_comments cs)"
  by pat_completeness auto
termination
  by (relation "measure length") (auto dest: find_close_length)

declare wrap_comments.simps(2) [simp del]

datatype kind = PoemIntro | PoemLine | Paragraph

definition is_poem_intro :: "ustring \<Rightarrow> bool" where
  "is_poem_intro line \<longleftrightarrow>
     startswith line [0x8BD7, 0x66F0] \<or> endswith line [0x4E91, 0xFF1A] \<or>
     endswith line [0x9053, 0x662F, 0xFF1A] \<or> endswith line [0x66F0, 0xFF1A]"

definition ends_sentence :: "ustring \<Rightarrow> bool" where
  "ends_sentence line \<longleftrightarrow>
     endswith line [0x3002] \<or> endswith line [0xFF0C] \<or> endswith line [0xFF1F] \<or>
     endswith line [0xFF01]"

text \<open>The \<^verbatim>\<open>if/elif/else\<close> of the loop: which paragraph a line becomes.\<close>

definition classify_line :: "ustring \<Rightarrow> kind" where
  "classify_line line =
     (if is_poem_intro line then PoemIntro
      else if length line < 40 \<and> ends_sentence line then PoemLine
      else Paragraph)"

text \<open>The markup appended for a line of each kind.\<close>

fun render :: "kind \<Rightarrow> ustring \<Rightarrow> ustring" where
  \<open>render PoemIntro line = ascii ''<p class="poem-intro">'' @ line @ ascii ''</p>''\<close>
| \<open>render PoemLine line =
     ascii ''<p class="poem-line" style="text-align:center;">'' @ line @ ascii ''</p>''\<close>
| \<open>render Paragraph line = ascii ''<p>'' @ line @ ascii ''</p>''\<close>

text \<open>The lines that survive, each with its kind, in the order of the text.\<close>

definition process_lines :: "ustring \<Rightarrow> (kind \<times> ustring) list" where
  "process_lines text =
     map (\<lambda>line. (classify_line line, line))
       (filter (\<lambda>line. line \<noteq> [])
         (map strip (split_on NL (wrap_comments (escape_html text)))))"

definition process_text :: "ustring \<Rightarrow> ustring" where
  "process_text text = join [NL] (map (\<lambda>(k, line). render k line) (process_lines text))"


section \<open>Numbering the chapters\<close>

text \<open>
  The loop of \<^verbatim>\<open>main\<close> over \<^verbatim>\<open>parsed_body\<close>. Its state is the two counters and what it
  has produced so far: for each page the manifest id, the file name, the title and the
  markup of the page.
\<close>

record page =
  page_id :: ustring
  page_file :: ustring
  page_title :: ustring
  page_html :: ustring

record loop_state =
  play_order :: nat
  chapter_index :: nat
  pages :: "page list"

fun loop_step :: "loop_state \<Rightarrow> item \<Rightarrow> loop_state" where
  "loop_step st (Intro t c f) =
     st \<lparr> play_order := play_order st + 1,
          pages := pages st @
            [\<lparr> page_id = ascii ''intro'', page_file = f, page_title = t,
               page_html = process_text c \<rparr>] \<rparr>"
| "loop_step st (Chapter n t c h) =
     (let k = chapter_index st + 1 in
      st \<lparr> play_order := play_order st + 1,
           chapter_index := k,
           pages := pages st @
             [\<lparr> page_id = ascii ''chap_'' @ str_nat k,
                page_file = ascii ''chapter_'' @ str_nat k @ ascii ''.html'',
                page_title = n @ [SP] @ t,
                page_html = process_text c \<rparr>] \<rparr>)"

definition main_loop :: "item list \<Rightarrow> loop_state" where
  "main_loop parsed_body =
     foldl loop_step \<lparr> play_order = 2, chapter_index = 0, pages = [] \<rparr> parsed_body"


section \<open>Facts about the string operations\<close>

lemmas text_defs = ascii_def is_space_def is_numeral_def numerals_def lstrip_def rstrip_def
  strip_def startswith_def endswith_def suffix_def Cons_eq_append_conv skip_ws_def

lemmas parse_defs = match_first_chapter_def first_chapter_here_def match_numeral_token_def
  header_core_def header_here_def finditer_headers.simps split_marker_def split_toc_body_def
  parse_toc_def parse_header_def make_chapter_def parse_body_def parse_full_text_def
  intro_title_def full_title_def Let_def

lemmas line_defs = escape_html_def wrap_comments.simps span_open_def span_close_def
  is_poem_intro_def ends_sentence_def classify_line_def process_lines_def process_text_def

lemma split_on_not_Nil [simp]: "split_on c xs \<noteq> []"
  by (induction xs) (auto split: list.splits)

lemma split_on_Cons:
  "split_on c (x # xs) =
     (if x = c then [] # split_on c xs else (x # hd (split_on c xs)) # tl (split_on c xs))"
  by (cases "split_on c xs") simp_all

declare split_on.simps(2) [simp del]

lemma replace_char_simps [simp]:
  "replace_char c r [] = []"
  "replace_char c r (x # t) = (if x = c then r else [x]) @ replace_char c r t"
  by (simp_all add: replace_char_def)

lemma split_on_append_clean:
  "c \<notin> set r \<Longrightarrow> split_on c (r @ u) = (r @ hd (split_on c u)) # tl (split_on c u)"
  by (induction r) (auto simp: split_on_Cons)

lemma split_on_replace_char:
  "c \<noteq> n \<Longrightarrow> n \<notin> set r \<Longrightarrow>
   split_on n (replace_char c r t) = map (replace_char c r) (split_on n t)"
proof (induction t)
  case Nil
  then show ?case by simp
next
  case (Cons x t)
  show ?case
  proof (cases "x = n")
    case True
    with Cons show ?thesis by (simp add: split_on_Cons)
  next
    case False
    then have "n \<notin> set (if x = c then r else [x])" using Cons.prems by auto
    then show ?thesis
      using Cons False
      by (auto simp: split_on_append_clean split_on_Cons hd_map map_tl)
  qed
qed

lemma split_on_escape_html: "split_on NL (escape_html t) = map escape_html (split_on NL t)"
  by (simp add: escape_html_def split_on_replace_char ascii_def comp_def)

lemma find_close_Some:
  "find_close s = Some (inner, rest) \<Longrightarrow>
   s = inner @ RB # rest \<and> NL \<notin> set inner \<and> RB \<notin> set inner"
  by (induction s arbitrary: inner) (auto split: if_splits)

lemma find_close_append_Some:
  "NL \<notin> set inner \<Longrightarrow> RB \<notin> set inner \<Longrightarrow> find_close (inner @ RB # rest) = Some (inner, rest)"
  by (induction inner) auto

lemma find_close_None_hd:
  "find_close s = None \<Longrightarrow> find_close (hd (split_on NL s)) = None"
  by (induction s) (auto simp: split_on_Cons split: if_splits)

lemma NL_notin_tags [simp]: "NL \<notin> set span_open" "NL \<notin> set span_close"
  by (simp_all add: span_open_def span_close_def ascii_def)

lemma split_on_wrap_comments:
  "split_on NL (wrap_comments t) = map wrap_comments (split_on NL t)"
proof (induction t rule: wrap_comments.induct)
  case 1
  show ?case by simp
next
  case (2 c cs)
  show ?case
  proof (cases "c = LB")
    case False
    then show ?thesis
      using 2 by (cases "c = NL") (auto simp: wrap_comments.simps(2) split_on_Cons hd_map map_tl)
  next
    case True
    show ?thesis
    proof (cases "find_close cs")
      case None
      then have h: "find_close (hd (split_on NL cs)) = None" by (rule find_close_None_hd)
      from 2(1) [OF True None] True None h show ?thesis
        by (simp add: wrap_comments.simps(2) split_on_Cons hd_map map_tl)
    next
      case (Some p)
      obtain inner rest where p: "p = (inner, rest)" by (cases p)
      from find_close_Some [OF Some [unfolded p]]
      have cs: "cs = inner @ RB # rest" and n1: "NL \<notin> set inner" and n2: "RB \<notin> set inner"
        by auto
      have ih: "split_on NL (wrap_comments rest) = map wrap_comments (split_on NL rest)"
        using 2(2) [OF True Some p [symmetric]] .
      have pre: "NL \<notin> set (span_open @ LB # inner @ RB # span_close)"
        using n1 by simp
      have lhs: "wrap_comments (c # cs) = (span_open @ LB # inner @ RB # span_close) @ wrap_comments rest"
        using True Some p by (simp add: wrap_comments.simps(2))
      have "split_on NL (c # cs) = (LB # inner @ RB # hd (split_on NL rest)) # tl (split_on NL rest)"
        using split_on_append_clean [of NL "LB # inner @ [RB]" rest] n1 True cs by simp
      moreover have "wrap_comments (LB # inner @ RB # hd (split_on NL rest))
          = (span_open @ LB # inner @ RB # span_close) @ wrap_comments (hd (split_on NL rest))"
        using n1 n2 by (simp add: wrap_comments.simps(2) find_close_append_Some)
      ultimately show ?thesis
        unfolding lhs split_on_append_clean [OF pre] ih
        by (simp add: hd_map map_tl)
    qed
  qed
qed


section \<open>Scenario A (claim C1)\<close>

definition scenario_A :: ustring where
  "scenario_A =
     [0x6249, 0x9875, 0x9898, 0x8BD7, 0xFF1A, 0x524D, 0x8A00, 0x6587, 0x5B57, NL,
      DI, YI, HUI, IDSP, 0x5F00, 0x7BC7, 0x4E4B, 0x9898, IDSP, IDSP,
      0x8FD9, 0x662F, 0x6B63, 0x6587, 0x3002]"

text \<open>
  Claim C1, as stated: on the text of scenario A the front matter has the four characters
  after the marker as its body, and the one chapter has the title of four characters and
  the body of five characters that follow the wide spaces. The parser does not produce
  these: the body of the front matter keeps the marker, the title is the whole rest of the
  header line, and the body of the chapter is empty, since the chapter is one line.
\<close>

theorem scenario_A_not_as_claimed:
  "item_content (hd (snd (snd (parse_full_text (Some scenario_A)))))
     \<noteq> [0x524D, 0x8A00, 0x6587, 0x5B57]
   \<and> item_title (snd (snd (parse_full_text (Some scenario_A))) ! 1)
     \<noteq> [0x5F00, 0x7BC7, 0x4E4B, 0x9898]
   \<and> item_content (snd (snd (parse_full_text (Some scenario_A))) ! 1)
     \<noteq> [0x8FD9, 0x662F, 0x6B63, 0x6587, 0x3002]"
  by (simp add: scenario_A_def text_defs parse_defs split_on.simps)

text \<open>
  Claim C1, amended: on scenario A the parser prints nothing, finds no listing, and
  returns a front-matter record whose body is the marker followed by the four characters,
  and exactly one chapter whose number is the three characters of "chapter one", whose
  title is the rest of the header line (the four characters, two wide spaces and the
  sentence) and whose body is empty. The empty body gives no line, and the sentence of
  five characters, given on its own, gives exactly one line, a poem line.
\<close>

theorem scenario_A_parse:
  "parse_full_text (Some scenario_A) =
     ([], [],
      [Intro intro_title
         [0x6249, 0x9875, 0x9898, 0x8BD7, 0xFF1A, 0x524D, 0x8A00, 0x6587, 0x5B57]
         (ascii ''intro.html''),
       Chapter [DI, YI, HUI]
         [0x5F00, 0x7BC7, 0x4E4B, 0x9898, IDSP, IDSP, 0x8FD9, 0x662F, 0x6B63, 0x6587, 0x3002]
         []
         [DI, YI, HUI, IDSP, 0x5F00, 0x7BC7, 0x4E4B, 0x9898, IDSP, IDSP,
          0x8FD9, 0x662F, 0x6B63, 0x6587, 0x3002]])
   \<and> process_lines [] = []
   \<and> process_lines [0x8FD9, 0x662F, 0x6B63, 0x6587, 0x3002]
       = [(PoemLine, [0x8FD9, 0x662F, 0x6B63, 0x6587, 0x3002])]"
  by (simp add: scenario_A_def text_defs parse_defs line_defs split_on.simps)


section \<open>Whitespace in the chapter number (claim C5)\<close>

text \<open>
  Claim C5 asks that the number stored for a header line that matches the pattern holds no
  whitespace, whatever whitespace the line has between the glyphs. The pattern accepts any
  whitespace there, but the source deletes ASCII spaces only: for a header line written
  with wide spaces the number keeps them, here as its second and fourth character.
\<close>

theorem numeral_token_keeps_wide_space:
  "parse_header [DI, IDSP, YI, IDSP, HUI, IDSP, 0x7504, 0x58EB, 0x9690]
     = ([DI, IDSP, YI, IDSP, HUI], [0x7504, 0x58EB, 0x9690])
   \<and> list_ex is_space
       (fst (parse_header [DI, IDSP, YI, IDSP, HUI, IDSP, 0x7504, 0x58EB, 0x9690]))"
  by (simp add: text_defs parse_defs)


section \<open>A bracketed span (claim C9)\<close>

text \<open>
  Claim C9: for the line of three characters, a bracketed note of two characters and a
  sentence of six characters, the markup keeps the three characters and the sentence as
  they are and puts the note, both brackets included, between the opening and the closing
  tag of a comment. (The tags make the line longer than the bound for poem lines, so the
  line is a plain paragraph.)
\<close>

theorem bracketed_span_wrapped:
  \<open>process_text
     [0x8D3E, 0x96E8, 0x6751, LB, 0x6279, 0x6CE8, RB, 0x98CE, 0x5C18, 0x6000, 0x95FA, 0x79C0,
      0x3002]
   = ascii ''<p>'' @ [0x8D3E, 0x96E8, 0x6751]
     @ ascii ''<span class="comment">'' @ [LB, 0x6279, 0x6CE8, RB] @ ascii ''</span>''
     @ [0x98CE, 0x5C18, 0x6000, 0x95FA, 0x79C0, 0x3002] @ ascii ''</p>''\<close>
  by (simp add: text_defs line_defs split_on.simps)


section \<open>Splitting at the marker (claim C2)\<close>

text \<open>
  The offsets at which a pattern occurs in a text, in increasing order; the marker occurs
  exactly once, at \<open>i\<close>, when this list is \<open>[i]\<close>.
\<close>

definition occurrences :: "'a list \<Rightarrow> 'a list \<Rightarrow> nat list" where
  "occurrences pat s = filter (\<lambda>i. prefix pat (drop i s)) [0..<Suc (length s)]"

lemma occurrences_Nil: "occurrences pat [] = (if pat = [] then [0] else [])"
  by (simp add: occurrences_def)

lemma occurrences_Cons:
  "occurrences pat (c # cs) =
     (if prefix pat (c # cs) then [0] else []) @ map Suc (occurrences pat cs)"
proof -
  have "[0..<Suc (Suc (length cs))] = 0 # map Suc [0..<Suc (length cs)]"
    by (subst upt_rec) (simp add: map_Suc_upt del: upt_Suc)
  then show ?thesis
    by (simp add: occurrences_def filter_map comp_def del: upt_Suc)
qed

lemma find_sub_occurrences:
  "find_sub pat s = (case occurrences pat s of [] \<Rightarrow> None | i # is \<Rightarrow> Some i)"
  by (induction s) (auto simp: occurrences_Nil occurrences_Cons split: list.splits)

lemma occurrences_prefix: "i \<in> set (occurrences pat s) \<Longrightarrow> prefix pat (drop i s)"
  by (simp add: occurrences_def del: upt_Suc)

text \<open>
  Claim C2: when the marker occurs exactly once in the input, at offset \<open>i\<close>, the parser
  splits at \<open>i\<close>: the listing text is the text before \<open>i\<close>, the body text is the text from
  \<open>i\<close> on and begins with the marker, and the front matter and the chapters returned are
  those of the text from \<open>i\<close> on alone, so that nothing before the marker is scanned for
  chapter headers.
\<close>

theorem marker_once_split:
  assumes "occurrences split_marker content = [i]"
  shows "prefix split_marker (drop i content)
     \<and> split_toc_body content = ([], Some (take i content, drop i content))
     \<and> parse_full_text (Some content) =
         (fst (parse_body (drop i content)), parse_toc (take i content),
          snd (parse_body (drop i content)))"
proof -
  have f: "find_sub split_marker content = Some i"
    using assms by (simp add: find_sub_occurrences)
  have p: "prefix split_marker (drop i content)"
    using assms occurrences_prefix [of i split_marker content] by simp
  then obtain post where post: "drop i content = split_marker @ post"
    by (auto simp: prefix_def)
  have "drop (i + length split_marker) content = post"
    using post by (metis add.commute append_eq_conv_conj drop_drop)
  then have s: "split_toc_body content = ([], Some (take i content, drop i content))"
    using f post by (simp add: split_toc_body_def)
  show ?thesis using p s by (simp add: parse_full_text_def)
qed

text \<open>The theorem at a text of two characters, the marker and one more character.\<close>

theorem marker_once_split_witness:
  "occurrences split_marker ([0x41, NL] @ split_marker @ [0x42]) = [2]
   \<and> split_toc_body ([0x41, NL] @ split_marker @ [0x42])
       = ([], Some ([0x41, NL], split_marker @ [0x42]))"
proof -
  have h: "occurrences split_marker ([0x41, NL] @ split_marker @ [0x42]) = [2]"
    by (simp add: occurrences_Cons occurrences_Nil split_marker_def)
  from marker_once_split [OF h] show ?thesis using h by simp
qed


section \<open>The fallback split (claim C3)\<close>

text \<open>
  In the words of the specification, for the numeral one only: the opening glyph, any
  whitespace, the numeral one, any whitespace, the closing glyph, at the head of a text.
\<close>

definition opening_one :: "ustring \<Rightarrow> bool" where
  "opening_one s \<longleftrightarrow>
     (\<exists>ws1 ws2 rest. s = DI # ws1 @ YI # ws2 @ HUI # rest
        \<and> list_all is_space ws1 \<and> list_all is_space ws2)"

text \<open>
  Offset \<open>k\<close> is a line start that opens chapter one: the start of the text, or a line
  feed, with the opening of chapter one right after it. (The match of the source begins at
  the line feed.)
\<close>

definition line_start_one :: "ustring \<Rightarrow> nat \<Rightarrow> bool" where
  "line_start_one content k \<longleftrightarrow>
     (k = 0 \<and> opening_one content) \<or>
     (k < length content \<and> content ! k = NL \<and> opening_one (drop (Suc k) content))"

lemma skip_ws_run:
  "list_all is_space ws \<Longrightarrow> \<not> is_space c \<Longrightarrow> skip_ws (ws @ c # r) = c # r"
  by (induction ws) (simp_all add: skip_ws_def)

lemma skip_ws_decomp:
  assumes "skip_ws s = c # r"
  shows "\<exists>ws. s = ws @ c # r \<and> list_all is_space ws"
proof -
  have "s = takeWhile is_space s @ skip_ws s"
    by (simp add: skip_ws_def)
  moreover have "list_all is_space (takeWhile is_space s)"
    by (simp add: list_all_iff) (meson set_takeWhileD)
  ultimately show ?thesis using assms by metis
qed

lemma not_space_glyphs [simp]: "\<not> is_space YI" "\<not> is_space HUI" "\<not> is_space DI"
  by (simp_all add: is_space_def)

lemma match_first_chapter_iff: "match_first_chapter s \<longleftrightarrow> opening_one s"
proof
  assume "match_first_chapter s"
  then obtain s1 s2 s3 where s: "s = DI # s1" and a: "skip_ws s1 = YI # s2"
    and b: "skip_ws s2 = HUI # s3"
    by (auto simp: match_first_chapter_def expect_Some split: option.splits)
  from skip_ws_decomp [OF a] obtain ws1 where w1: "s1 = ws1 @ YI # s2" "list_all is_space ws1"
    by blast
  from skip_ws_decomp [OF b] obtain ws2 where w2: "s2 = ws2 @ HUI # s3" "list_all is_space ws2"
    by blast
  show "opening_one s"
    unfolding opening_one_def using s w1 w2 by blast
next
  assume "opening_one s"
  then obtain ws1 ws2 rest where s: "s = DI # ws1 @ YI # ws2 @ HUI # rest"
    and w: "list_all is_space ws1" "list_all is_space ws2"
    unfolding opening_one_def by blast
  show "match_first_chapter s"
    using w by (simp add: s match_first_chapter_def skip_ws_run)
qed

lemma first_chapter_here_iff:
  assumes "k \<le> length content"
  shows "first_chapter_here k (drop k content) \<longleftrightarrow> line_start_one content k"
proof (cases "k < length content")
  case True
  then have "drop k content = content ! k # drop (Suc k) content"
    by (simp add: Cons_nth_drop_Suc)
  then show ?thesis
    using True by (auto simp: first_chapter_here_def line_start_one_def match_first_chapter_iff)
next
  case False
  then have "drop k content = []" by simp
  then show ?thesis
    using False assms
    by (auto simp: first_chapter_here_def line_start_one_def match_first_chapter_iff)
qed

lemma line_start_one_le: "line_start_one content k \<Longrightarrow> k \<le> length content"
  by (auto simp: line_start_one_def)

lemma search_first_chapter_Some:
  "search_first_chapter i s = Some k \<Longrightarrow>
   \<exists>n\<le>length s. k = i + n \<and> first_chapter_here (i + n) (drop n s)
     \<and> (\<forall>m<n. \<not> first_chapter_here (i + m) (drop m s))"
proof (induction s arbitrary: i)
  case Nil
  then show ?case by (auto split: if_splits)
next
  case (Cons c r)
  show ?case
  proof (cases "first_chapter_here i (c # r)")
    case True
    with Cons.prems show ?thesis by (intro exI [of _ 0]) simp
  next
    case False
    with Cons.prems have "search_first_chapter (Suc i) r = Some k" by simp
    from Cons.IH [OF this] obtain n where n: "n \<le> length r" "k = Suc i + n"
      "first_chapter_here (Suc i + n) (drop n r)"
      "\<forall>m<n. \<not> first_chapter_here (Suc i + m) (drop m r)" by blast
    have "\<forall>m<Suc n. \<not> first_chapter_here (i + m) (drop m (c # r))"
    proof (intro allI impI)
      fix m assume "m < Suc n"
      then show "\<not> first_chapter_here (i + m) (drop m (c # r))"
        using False n(4) by (cases m) auto
    qed
    with n show ?thesis by (intro exI [of _ "Suc n"]) simp
  qed
qed

lemma search_first_chapter_None:
  "search_first_chapter i s = None \<Longrightarrow> n \<le> length s \<Longrightarrow>
   \<not> first_chapter_here (i + n) (drop n s)"
proof (induction s arbitrary: i n)
  case Nil
  then show ?case by (auto split: if_splits)
next
  case (Cons c r)
  show ?case
  proof (cases n)
    case 0
    with Cons.prems show ?thesis by (auto split: if_splits)
  next
    case (Suc n')
    from Cons.prems have "search_first_chapter (Suc i) r = None" by (auto split: if_splits)
    from Cons.IH [OF this, of n'] Suc Cons.prems show ?thesis by simp
  qed
qed

lemma search_least:
  assumes "line_start_one content k" and "\<forall>j<k. \<not> line_start_one content j"
  shows "search_first_chapter 0 content = Some k"
proof (cases "search_first_chapter 0 content")
  case None
  from search_first_chapter_None [OF None, of k] assms(1)
  show ?thesis by (simp add: first_chapter_here_iff line_start_one_le)
next
  case (Some k')
  from search_first_chapter_Some [OF Some]
  have le: "k' \<le> length content" and here: "first_chapter_here k' (drop k' content)"
    and least: "\<forall>m<k'. \<not> first_chapter_here m (drop m content)" by auto
  have "line_start_one content k'" using here le by (simp add: first_chapter_here_iff)
  then have "\<not> k' < k" using assms(2) by blast
  moreover have "\<not> k < k'"
    using least assms(1) by (auto simp: first_chapter_here_iff line_start_one_le)
  ultimately show ?thesis using Some by simp
qed

lemma search_none:
  assumes "\<forall>k. \<not> line_start_one content k"
  shows "search_first_chapter 0 content = None"
proof (cases "search_first_chapter 0 content")
  case None then show ?thesis .
next
  case (Some k')
  from search_first_chapter_Some [OF Some]
  have "k' \<le> length content" "first_chapter_here k' (drop k' content)" by auto
  then have "line_start_one content k'" by (simp add: first_chapter_here_iff)
  with assms show ?thesis by blast
qed

text \<open>
  Claim C3, amended: when the marker is absent, the fallback looks for the opening of
  chapter one only. If \<open>k\<close> is the first line start that opens chapter one, the listing
  text is the text before \<open>k\<close> and the body text is the text from \<open>k\<close> on, with one
  warning printed; if no line start opens chapter one, the parser prints the warning and
  an error and gives up, whatever other chapters the text has.
\<close>

theorem fallback_splits_at_first_chapter_one:
  assumes "find_sub split_marker content = None"
  shows "(\<forall>k. line_start_one content k \<and> (\<forall>j<k. \<not> line_start_one content j) \<longrightarrow>
            split_toc_body content = ([MarkerNotFound], Some (take k content, drop k content)))
       \<and> ((\<forall>k. \<not> line_start_one content k) \<longrightarrow>
            split_toc_body content = ([MarkerNotFound, CouldNotSplit], None))"
  using assms by (auto simp: split_toc_body_def search_least search_none)

text \<open>
  Claim C3, as stated, says that the fallback succeeds for any numeral. It does not: a
  text without the marker whose first line is the header of chapter two, which the
  chapter-header pattern matches at offset 0, is not split, and nothing is returned.
\<close>

theorem fallback_needs_chapter_one:
  "parse_full_text (Some [DI, ER, HUI, SP, 0x41, NL, 0x42])
     = ([MarkerNotFound, CouldNotSplit], [], [])
   \<and> header_here 0 [DI, ER, HUI, SP, 0x41, NL, 0x42] = Some 6"
  by (simp add: text_defs parse_defs)

text \<open>The amended claim at a text whose second line opens chapter one.\<close>

theorem fallback_splits_witness:
  "find_sub split_marker [0x41, NL, DI, SP, YI, HUI, 0x42] = None
   \<and> split_toc_body [0x41, NL, DI, SP, YI, HUI, 0x42]
       = ([MarkerNotFound], Some ([0x41], [NL, DI, SP, YI, HUI, 0x42]))"
proof -
  let ?c = "[0x41, NL, DI, SP, YI, HUI, 0x42]"
  have h: "find_sub split_marker ?c = None"
    by (simp add: split_marker_def)
  have o: "opening_one [DI, SP, YI, HUI, 0x42]"
    unfolding opening_one_def
    by (intro exI [of _ "[SP]"] exI [of _ "[]"] exI [of _ "[0x42]"]) (simp add: is_space_def)
  have n: "\<not> opening_one ?c"
    by (simp add: opening_one_def)
  have a: "line_start_one ?c 1"
    using o by (simp add: line_start_one_def)
  have b: "\<forall>j<1. \<not> line_start_one ?c j"
    using n by (simp add: line_start_one_def)
  from fallback_splits_at_first_chapter_one [OF h] a b
  have "split_toc_body ?c = ([MarkerNotFound], Some (take 1 ?c, drop 1 ?c))" by blast
  then show ?thesis using h by simp
qed

end
